theory Spec2Isabelle
  imports Main "HOL-Library.Sublist" "HOL-Library.Multiset" "HOL-Library.Char_ord"
    "HOL-Library.List_Lexorder" "HOL-Library.Product_Lexorder"
begin

section \<open>The keyword-path counter of scripts/dsn.py\<close>

text \<open>
  The script reads each file named on the command line, lexes it, walks the tokens while
  maintaining the module-level list \<open>path\<close> and the module-level dictionary \<open>counts\<close>, and
  finally prints the dictionary.

  Conventions of the embedding.
  \<^item> A Python \<open>str\<close> is a \<^typ>\<open>string\<close>; a \<^typ>\<open>char\<close> with code \<open>n\<close> stands for the code
    point \<open>n\<close>, so the model covers texts over the code points below 256.
  \<^item> Python integers are \<^typ>\<open>int\<close>.
  \<^item> The dictionary \<open>counts\<close> is an association list with distinct keys in insertion
    order, which is the order \<open>counts.items()\<close> enumerates.
  \<^item> An exception is a value of \<open>error\<close>; the module-level variables are the record
    \<open>globals\<close>, which a raising call hands back as it left them.
  \<^item> \<open>assert\<close> statements are executed (the interpreter runs without \<open>-O\<close>).
\<close>

subsection \<open>Exceptions and module-level state\<close>

datatype error = IndexError | AssertionError | OSError

record globals =
  path :: "string list"
  counts :: "(string \<times> int) list"

definition init :: globals where
  "init = \<lparr>path = [], counts = []\<rparr>"

subsection \<open>String primitives of Python\<close>

text \<open>\<open>pat in s\<close> on strings: \<open>pat\<close> occurs as a contiguous substring of \<open>s\<close>.\<close>

fun contains :: "string \<Rightarrow> string \<Rightarrow> bool" where
  "contains [] pat = (pat = [])"
| "contains (c # cs) pat = (prefix pat (c # cs) \<or> contains cs pat)"

text \<open>
  \<open>s.replace(old, new)\<close>: the non-overlapping occurrences of \<open>old\<close> are replaced from left
  to right; an empty \<open>old\<close> matches before every character and at the end.
\<close>

function replace :: "string \<Rightarrow> string \<Rightarrow> string \<Rightarrow> string" where
  "replace [] old new = (if old = [] then new else [])"
| "replace (c # cs) old new =
     (if old = [] then new @ c # replace cs old new
      else if prefix old (c # cs) then new @ replace (drop (length old) (c # cs)) old new
      else c # replace cs old new)"
  by pat_completeness auto
termination
  by (relation "measure (\<lambda>(s, old, new). length s)") auto

text \<open>\<open>str.lower\<close> on the code points below 256: A-Z and the accented capitals.\<close>

definition lower_char :: "char \<Rightarrow> char" where
  "lower_char c =
     (let n = (of_char c :: nat)
      in if (65 \<le> n \<and> n \<le> 90) \<or> (192 \<le> n \<and> n \<le> 222 \<and> n \<noteq> 215)
         then char_of (n + 32) else c)"

definition lower :: "string \<Rightarrow> string" where
  "lower s = map lower_char s"

text \<open>
  The characters that \<open>str.strip()\<close> removes and that \<open>\s\<close> matches in a \<open>str\<close> pattern:
  tab, line feed, vertical tab, form feed, carriage return, the four separators
  0x1C-0x1F, space, next line (0x85) and no-break space (0xA0).
\<close>

definition isspace :: "char \<Rightarrow> bool" where
  "isspace c =
     (let n = (of_char c :: nat)
      in (9 \<le> n \<and> n \<le> 13) \<or> (28 \<le> n \<and> n \<le> 32) \<or> n = 133 \<or> n = 160)"

definition strip :: "string \<Rightarrow> string" where
  "strip s = rev (dropWhile isspace (rev (dropWhile isspace s)))"

text \<open>\<open>sep.join(xs)\<close>.\<close>

fun join :: "string \<Rightarrow> string list \<Rightarrow> string" where
  "join sep [] = []"
| "join sep [x] = x"
| "join sep (x # y # ys) = x @ sep @ join sep (y # ys)"

text \<open>
  \<open>re.split(r'([()\s])', s)\<close>: the text is cut at every single parenthesis or whitespace
  character; because the pattern is a capturing group, each delimiter is itself an
  element of the result, between the pieces it separates. \<open>cur\<close> is the piece being read.
\<close>

definition is_delim :: "char \<Rightarrow> bool" where
  "is_delim c = (c = CHR ''('' \<or> c = CHR '')'' \<or> isspace c)"

fun re_split :: "string \<Rightarrow> string \<Rightarrow> string list" where
  "re_split cur [] = [cur]"
| "re_split cur (c # cs) =
     (if is_delim c then cur # [c] # re_split [] cs else re_split (cur @ [c]) cs)"

text \<open>\<open>'%d' % v\<close>: the decimal numeral of an integer.\<close>

definition digit :: "nat \<Rightarrow> char" where
  "digit d = char_of (48 + d)"

function str_nat :: "nat \<Rightarrow> string" where
  "str_nat n = (if n < 10 then [digit n] else str_nat (n div 10) @ [digit (n mod 10)])"
  by pat_completeness auto
termination
  by (relation "measure id") auto

definition str_int :: "int \<Rightarrow> string" where
  "str_int v = (if v < 0 then CHR ''-'' # str_nat (nat (- v)) else str_nat (nat v))"

subsection \<open>The keyword table\<close>

text \<open>The list \<open>keywords\<close> of the source (the name is reserved here).\<close>

definition keyword_table :: "string list" where
  "keyword_table = [
    ''absolute'', ''added'', ''add_group'', ''add_pins'', ''allow_antenna'',
    ''allow_redundant_wiring'', ''amp'', ''ancestor'', ''antipad'', ''aperture_type'',
    ''array'', ''attach'', ''attr'', ''average_pair_length'', ''back'', ''base_design'',
    ''bbv_ctr2ctr'', ''bend_keepout'', ''bond'', ''both'', ''bottom'',
    ''bottom_layer_sel'', ''boundary'', ''brickpat'', ''bundle'', ''bus'', ''bypass'',
    ''capacitance_resolution'', ''capacitor'', ''case_sensitive'', ''cct1'', ''cct1a'',
    ''center_center'', ''checking_trim_by_pin'', ''circ'', ''circle'', ''circuit'',
    ''class'', ''class_class'', ''classes'', ''clear'', ''clearance'', ''cluster'',
    ''cm'', ''color'', ''colors'', ''comment'', ''comp'', ''comp_edge_center'',
    ''comp_order'', ''component'', ''composite'', ''conductance_resolution'',
    ''conductor'', ''conflict'', ''connect'', ''constant'', ''contact'', ''control'',
    ''corner'', ''corners'', ''cost'', ''created_time'', ''cross'', ''crosstalk_model'',
    ''current_resolution'', ''deleted'', ''deleted_keepout'', ''delta'', ''diagonal'',
    ''direction'', ''directory'', ''discrete'', ''effective_via_length'',
    ''elongate_keepout'', ''exclude'', ''expose'', ''extra_image_directory'',
    ''family'', ''family_family'', ''family_family_spacing'', ''fanout'', ''farad'',
    ''file'', ''fit'', ''fix'', ''flip_style'', ''floor_plan'', ''footprint'',
    ''forbidden'', ''force_to_terminal_point'', ''forgotten'', ''free'', ''fromto'',
    ''front'', ''front_only'', ''gap'', ''gate'', ''gates'', ''generated_by_freeroute'',
    ''global'', ''grid'', ''group'', ''group_set'', ''guide'', ''hard'', ''height'',
    ''high'', ''history'', ''horizontal'', ''host_cad'', ''host_version'', ''image'',
    ''image_conductor'', ''image_image'', ''image_image_spacing'',
    ''image_outline_clearance'', ''image_set'', ''image_type'', ''inch'', ''include'',
    ''include_pins_in_crosstalk'', ''inductance_resolution'', ''insert'', ''instcnfg'',
    ''inter_layer_clearance'', ''jumper'', ''junction_type'', ''keepout'', ''kg'',
    ''kohm'', ''large'', ''large_large'', ''layer'', ''layer_depth'',
    ''layer_noise_weight'', ''layer_pair'', ''layer_rule'', ''length'',
    ''length_amplitude'', ''length_factor'', ''length_gap'', ''library'',
    ''library_out'', ''limit'', ''limit_bends'', ''limit_crossing'', ''limit_vias'',
    ''limit_way'', ''linear'', ''linear_interpolation'', ''load'', ''lock_type'',
    ''logical_part'', ''logical_part_mapping'', ''low'', ''match_fromto_delay'',
    ''match_fromto_length'', ''match_group_delay'', ''match_group_length'',
    ''match_net_delay'', ''match_net_length'', ''max_delay'', ''max_len'',
    ''max_length'', ''max_noise'', ''max_restricted_layer_length'', ''max_stagger'',
    ''max_stub'', ''max_total_delay'', ''max_total_length'', ''max_total_vias'',
    ''medium'', ''mhenry'', ''mho'', ''microvia'', ''mid_driven'', ''mil'', ''min_gap'',
    ''mirror'', ''mirror_first'', ''mixed'', ''mm'', ''negative_diagonal'', ''net'',
    ''net_number'', ''net_out'', ''net_pin_changes'', ''nets'', ''network'',
    ''network_out'', ''no'', ''noexpose'', ''noise_accumulation'',
    ''noise_calculation'', ''normal'', ''object_type'', ''off'', ''off_grid'',
    ''offset'', ''on'', ''open'', ''opposite_side'', ''order'', ''orthogonal'',
    ''outline'', ''overlap'', ''pad'', ''pad_pad'', ''padstack'', ''pair'',
    ''parallel'', ''parallel_noise'', ''parallel_segment'', ''parser'',
    ''part_library'', ''path'', ''pcb'', ''permit_orient'', ''permit_side'',
    ''physical'', ''physical_part_mapping'', ''piggyback'', ''pin'', ''pin_allow'',
    ''pin_cap_via'', ''pin_via_cap'', ''pin_width_taper'', ''pins'', ''pintype'',
    ''place'', ''place_boundary'', ''place_control'', ''place_keepout'', ''place_rule'',
    ''placement'', ''plan'', ''plane'', ''pn'', ''point'', ''polyline_path'',
    ''polygon'', ''position'', ''positive_diagonal'', ''power'', ''power_dissipation'',
    ''power_fanout'', ''prefix'', ''primary'', ''priority'', ''property'', ''protect'',
    ''qarc'', ''quarter'', ''radius'', ''ratio'', ''ratio_tolerance'', ''rect'',
    ''reduced'', ''region'', ''region_class'', ''region_class_class'', ''region_net'',
    ''relative_delay'', ''relative_group_delay'', ''relative_group_length'',
    ''relative_length'', ''reorder'', ''reroute_order_viols'',
    ''resistance_resolution'', ''resistor'', ''resolution'',
    ''restricted_layer_length_factor'', ''room'', ''rotate'', ''rotate_first'',
    ''round'', ''roundoff_rotation'', ''route'', ''route_to_fanout_only'', ''routes'',
    ''routes_include'', ''rule'', ''same_net_checking'', ''sample_window'',
    ''saturation_length'', ''sec'', ''secondary'', ''self'', ''sequence_number'',
    ''session'', ''set_color'', ''set_pattern'', ''shape'', ''shield'', ''shield_gap'',
    ''shield_loop'', ''shield_tie_down_interval'', ''shield_width'', ''side'',
    ''signal'', ''site'', ''small'', ''smd'', ''snap'', ''snap_angle'', ''soft'',
    ''source'', ''space_in_quoted_tokens'', ''spacing'', ''spare'', ''spiral_via'',
    ''square'', ''stack_via'', ''stack_via_depth'', ''standard'', ''starburst'',
    ''status'', ''structure'', ''structure_out'', ''subgate'', ''subgates'',
    ''substituted'', ''such'', ''suffix'', ''super_placement'', ''supply'',
    ''supply_pin'', ''swapping'', ''switch_window'', ''system'', ''tandem_noise'',
    ''tandem_segment'', ''tandem_shield_overhang'', ''terminal'', ''terminator'',
    ''term_only'', ''test'', ''test_points'', ''testpoint'', ''threshold'',
    ''time_length_factor'', ''time_resolution'', ''tjunction'', ''tolerance'', ''top'',
    ''topology'', ''total'', ''track_id'', ''turret'', ''type'', ''um'', ''unassigned'',
    ''unconnects'', ''unit'', ''up'', ''use_array'', ''use_layer'', ''use_net'',
    ''use_via'', ''value'', ''vertical'', ''via'', ''via_array_template'',
    ''via_at_smd'', ''via_keepout'', ''via_number'', ''via_rotate_first'', ''via_site'',
    ''via_size'', ''virtual_pin'', ''volt'', ''voltage_resolution'', ''was_is'',
    ''way'', ''weight'', ''width'', ''window'', ''wire'', ''wire_keepout'', ''wires'',
    ''wires_include'', ''wiring'', ''write_resolution'', ''pin_pin'', ''smd_pin'',
    ''via_pin'', ''wire_pin'', ''area_pin'', ''testpoint_pin'', ''pin_smd'',
    ''smd_smd'', ''via_smd'', ''wire_smd'', ''area_smd'', ''testpoint_smd'',
    ''pin_via'', ''smd_via'', ''via_via'', ''wire_via'', ''area_via'',
    ''testpoint_via'', ''pin_wire'', ''smd_wire'', ''via_wire'', ''wire_wire'',
    ''area_wire'', ''testpoint_wire'', ''pin_area'', ''smd_area'', ''via_area'',
    ''wire_area'', ''area_area'', ''testpoint_area'', ''pin_testpoint'',
    ''smd_testpoint'', ''via_testpoint'', ''wire_testpoint'', ''area_testpoint'',
    ''testpoint_testpoint'', ''smd_via_same_net'', ''via_via_same_net'',
    ''buried_via_gap'', ''antipad_gap'', ''pad_to_turn_gap'', ''smd_to_turn_gap'']"

definition valid_keyword :: "string \<Rightarrow> bool" where
  "valid_keyword t = (t \<in> set keyword_table)"

subsection \<open>Recording a path\<close>

text \<open>
  \<open>counts.setdefault(ct, 0)\<close> adds the key with 0 at the end of the dictionary when it is
  absent; \<open>counts[ct] += 1\<close> then rewrites the value stored under the key, which is
  present at that point.
\<close>

definition setdefault :: "string \<Rightarrow> int \<Rightarrow> (string \<times> int) list \<Rightarrow> (string \<times> int) list" where
  "setdefault k d cs = (if k \<in> fst ` set cs then cs else cs @ [(k, d)])"

definition increment :: "string \<Rightarrow> (string \<times> int) list \<Rightarrow> (string \<times> int) list" where
  "increment k cs = map (\<lambda>(k', v). if k' = k then (k', v + 1) else (k', v)) cs"

definition add_path :: "globals \<Rightarrow> globals" where
  "add_path g =
     (let ct = join ''.'' (path g)
      in g\<lparr>counts := increment ct (setdefault ct 0 (counts g))\<rparr>)"

text \<open>The count recorded for a path: 0 while the dictionary has no such key.\<close>

definition count_of :: "(string \<times> int) list \<Rightarrow> string \<Rightarrow> int" where
  "count_of cs k = (case map_of cs k of Some v \<Rightarrow> v | None \<Rightarrow> 0)"

subsection \<open>Printing the report\<close>

definition print_vals :: "(string \<times> int) list \<Rightarrow> (int \<times> string) list" where
  "print_vals cs = sort_key (\<lambda>x. (snd x, fst x)) (map (\<lambda>(k, v). (v, k)) cs)"

definition print_line :: "int \<times> string \<Rightarrow> string" where
  "print_line x = (case x of (v, k) \<Rightarrow> k @ '': '' @ str_int v)"

definition print_counts :: "globals \<Rightarrow> string list" where
  "print_counts g = map print_line (print_vals (counts g))"

subsection \<open>The lexer: lines 122-146 of process\<close>

definition select_quote :: "string \<Rightarrow> char" where
  "select_quote data =
     (let quote = CHR 0x22;
          quote = (if contains data (''(string_quote '' @ [CHR 0x22] @ '')'') then CHR 0x22 else quote);
          quote = (if contains data (''(string_quote '' @ [CHR 0x27] @ '')'') then CHR 0x27 else quote);
          quote = (if contains data ''(string_quote $)'' then CHR ''$'' else quote)
      in quote)"

definition prepare :: "string \<Rightarrow> string" where
  "prepare data =
     (let data = replace data (''(string_quote '' @ [CHR 0x22] @ '')'') [];
          data = replace data (''(string_quote '' @ [CHR 0x27] @ '')'') [];
          data = replace data ''(string_quote $)'' [];
          data = replace data [CHR 0x5C, CHR 0x22] []
      in lower data)"

text \<open>
  The inner loop \<open>while data[i] != quote: i += 1\<close>. Reading \<open>data[i]\<close> at the end of the
  text raises IndexError.
\<close>

function find_close :: "char \<Rightarrow> string \<Rightarrow> nat \<Rightarrow> error + nat" where
  "find_close quote data i =
     (if i < length data
      then (if data ! i \<noteq> quote then find_close quote data (i + 1) else Inr i)
      else Inl IndexError)"
  by pat_completeness auto
termination
  by (relation "measure (\<lambda>(quote, data, i). length data - i)") auto

text \<open>The outer loop \<open>while i < len(data)\<close> of the quoted-region pass.\<close>

function quote_loop :: "char \<Rightarrow> string \<Rightarrow> nat \<Rightarrow> string \<Rightarrow> error + string" where
  "quote_loop quote data i new_data =
     (if i < length data then
        (let new_data = new_data @ [data ! i]
         in if data ! i = quote then
              (case find_close quote data (i + 1) of
                 Inl e \<Rightarrow> Inl e
               | Inr j \<Rightarrow> quote_loop quote data (j + 1) (new_data @ [quote]))
            else quote_loop quote data (i + 1) new_data)
      else Inr new_data)"
  by pat_completeness auto
termination
proof (relation "measure (\<lambda>(quote, data, i, new_data). length data - i)")
  show "wf (measure (\<lambda>(quote, data, i, new_data). length data - i))" by simp
next
  fix quote :: char and data :: string and i :: nat and new_data x :: string and j :: nat
  assume lt: "i < length data" and found: "find_close quote data (i + 1) = Inr j"
  have bounds: "find_close quote data k = Inr j \<Longrightarrow> k \<le> j \<and> j < length data" for k
  proof (induction quote data k rule: find_close.induct)
    case (1 quote data k)
    show ?case
    proof (cases "k < length data \<and> data ! k \<noteq> quote")
      case True
      with "1.prems" have "find_close quote data (k + 1) = Inr j" by simp
      with True "1.IH" show ?thesis by simp
    next
      case False
      with "1.prems" show ?thesis by (auto split: if_splits)
    qed
  qed
  from bounds [OF found] have "i < j" and "j < length data" by simp_all
  then show "((quote, data, j + 1, x @ [quote]), quote, data, i, new_data)
      \<in> measure (\<lambda>(quote, data, i, new_data). length data - i)"
    by simp
next
  fix quote :: char and data :: string and i :: nat and new_data x :: string
  assume "i < length data"
  then show "((quote, data, i + 1, x), quote, data, i, new_data)
      \<in> measure (\<lambda>(quote, data, i, new_data). length data - i)"
    by simp
qed

definition tokenize :: "string \<Rightarrow> string list" where
  "tokenize new_data = filter (\<lambda>i. i \<noteq> []) (map strip (re_split [] new_data))"

definition lexer :: "string \<Rightarrow> error + string list" where
  "lexer data =
     (case quote_loop (select_quote data) (prepare data) 0 [] of
        Inl e \<Rightarrow> Inl e
      | Inr new_data \<Rightarrow> Inr (tokenize new_data))"

subsection \<open>The walker: lines 148-164 of process\<close>

text \<open>\<open>next_token\<close> advances \<open>idx\<close> and returns the token it passed.\<close>

definition next_token :: "string list \<Rightarrow> nat \<Rightarrow> error + string \<times> nat" where
  "next_token tokens idx =
     (if idx < length tokens then Inr (tokens ! idx, idx + 1) else Inl IndexError)"

text \<open>\<open>path.pop()\<close> raises IndexError on the empty list.\<close>

definition pop :: "globals \<Rightarrow> error + globals" where
  "pop g = (if path g = [] then Inl IndexError else Inr (g\<lparr>path := butlast (path g)\<rparr>))"

definition append :: "string \<Rightarrow> globals \<Rightarrow> globals" where
  "append t g = g\<lparr>path := path g @ [t]\<rparr>"

text \<open>
  One round of the loop \<open>while idx < len(tokens)\<close>. A raise returns the exception with
  the globals as they are at that moment.
\<close>

definition walk_step :: "string list \<Rightarrow> nat \<Rightarrow> globals \<Rightarrow> error \<times> globals + nat \<times> globals" where
  "walk_step tokens idx g =
     (case next_token tokens idx of
        Inl e \<Rightarrow> Inl (e, g)
      | Inr (t, idx) \<Rightarrow>
          if t = ''('' then
            (case next_token tokens idx of
               Inl e \<Rightarrow> Inl (e, g)
             | Inr (nt, idx) \<Rightarrow>
                 if nt = '')'' then Inl (AssertionError, g)
                 else Inr (idx, add_path (append nt g)))
          else if t = '')'' then
            (case pop g of Inl e \<Rightarrow> Inl (e, g) | Inr g' \<Rightarrow> Inr (idx, g'))
          else if \<not> length (path g) > 0 then Inl (AssertionError, g)
          else if valid_keyword t then
            (case pop (add_path (append t g)) of
               Inl e \<Rightarrow> Inl (e, add_path (append t g))
             | Inr g' \<Rightarrow> Inr (idx, g'))
          else Inr (idx, g))"

function walk :: "string list \<Rightarrow> nat \<Rightarrow> globals \<Rightarrow> error option \<times> globals" where
  "walk tokens idx g =
     (if idx < length tokens then
        (case walk_step tokens idx g of
           Inl (e, g') \<Rightarrow> (Some e, g')
         | Inr (idx', g') \<Rightarrow> walk tokens idx' g')
      else (None, g))"
  by pat_completeness auto
termination
proof (relation "measure (\<lambda>(tokens, idx, g). length tokens - idx)")
  show "wf (measure (\<lambda>(tokens, idx, g). length tokens - idx))" by simp
next
  fix tokens :: "string list" and idx :: nat and g :: globals
    and x :: "nat \<times> globals" and idx' :: nat and g' :: globals
  assume "idx < length tokens" and "walk_step tokens idx g = Inr x" and "(idx', g') = x"
  then have "idx < idx'" and "idx' \<le> length tokens"
    by (auto simp: walk_step_def next_token_def split: if_splits sum.splits)
  then show "((tokens, idx', g'), tokens, idx, g)
      \<in> measure (\<lambda>(tokens, idx, g). length tokens - idx)"
    by simp
qed

text \<open>
  The states of the loop: \<open>walk_reaches tokens idx0 g0 idx g\<close> holds when the loop, started
  with \<open>idx0\<close> and the globals \<open>g0\<close>, stands at its head with \<open>idx\<close> and the globals \<open>g\<close>
  after some number of completed rounds.
\<close>

inductive walk_reaches :: "string list \<Rightarrow> nat \<Rightarrow> globals \<Rightarrow> nat \<Rightarrow> globals \<Rightarrow> bool" where
  start: "walk_reaches tokens idx0 g0 idx0 g0"
| round: "walk_reaches tokens idx0 g0 idx g \<Longrightarrow> idx < length tokens \<Longrightarrow>
     walk_step tokens idx g = Inr (idx', g') \<Longrightarrow> walk_reaches tokens idx0 g0 idx' g'"

code_pred walk_reaches .

text \<open>
  \<open>process(data)\<close>: the lexer, the walk from \<open>idx = 0\<close>, and the final
  \<open>assert len(path) == 0\<close>. The result is the exception raised, if any, and the globals.
\<close>

definition process :: "string \<Rightarrow> globals \<Rightarrow> error option \<times> globals" where
  "process data g =
     (case lexer data of
        Inl e \<Rightarrow> (Some e, g)
      | Inr tokens \<Rightarrow>
          (case walk tokens 0 g of
             (Some e, g') \<Rightarrow> (Some e, g')
           | (None, g') \<Rightarrow>
               if length (path g') = 0 then (None, g') else (Some AssertionError, g')))"

subsection \<open>The main loop: lines 167-173\<close>

text \<open>
  A command-line argument is a file name with what \<open>open(v).read()\<close> gives for it:
  \<open>None\<close> when it raises. The bare \<open>except\<close> prints a notice and the loop goes on with
  the globals as the failed call left them.
\<close>

definition process_file :: "string option \<Rightarrow> globals \<Rightarrow> error option \<times> globals" where
  "process_file content g =
     (case content of None \<Rightarrow> (Some OSError, g) | Some data \<Rightarrow> process data g)"

fun main_loop :: "(string \<times> string option) list \<Rightarrow> string list \<times> globals \<Rightarrow> string list \<times> globals" where
  "main_loop [] (out, g) = (out, g)"
| "main_loop ((v, content) # rest) (out, g) =
     (case process_file content g of
        (Some e, g') \<Rightarrow> main_loop rest (out @ [''Failed to process '' @ v], g')
      | (None, g') \<Rightarrow> main_loop rest (out, g'))"

definition main :: "(string \<times> string option) list \<Rightarrow> string list" where
  "main argv = (case main_loop argv ([], init) of (out, g) \<Rightarrow> out @ print_counts g)"


section \<open>Properties\<close>

text \<open>
  The recursive equations of the loops are unfolded by hand, one round at a time. On a
  concrete token list the walker is evaluated with \<open>walk_eval\<close>.
\<close>

declare find_close.simps [simp del] quote_loop.simps [simp del] walk.simps [simp del]
  str_nat.simps [simp del]

lemmas walk_eval = walk.simps walk_step_def next_token_def pop_def append_def add_path_def
  setdefault_def increment_def process_def process_file_def init_def Let_def

subsection \<open>The quoted-region pass on lists\<close>

text \<open>
  The pass reads \<open>data\<close> through an index. The lemmas below restate it on the text that
  is still to be read: the loops do not look behind the index, and what has been
  written to \<open>new_data\<close> is only ever extended.
\<close>

lemma find_close_shift:
  "find_close q (xs @ ys) (length xs + i) =
     (case find_close q ys i of Inl e \<Rightarrow> Inl e | Inr j \<Rightarrow> Inr (length xs + j))"
proof (induction q ys i rule: find_close.induct)
  case (1 q ys i)
  show ?case
  proof (cases "i < length ys \<and> ys ! i \<noteq> q")
    case True
    then have "find_close q (xs @ ys) (length xs + i) = find_close q (xs @ ys) (length xs + (i + 1))"
      by (subst find_close.simps) (simp add: nth_append)
    also have "\<dots> = (case find_close q ys (i + 1) of Inl e \<Rightarrow> Inl e | Inr j \<Rightarrow> Inr (length xs + j))"
      using True "1.IH" by simp
    also have "find_close q ys (i + 1) = find_close q ys i"
      using True by (subst (2) find_close.simps) simp
    finally show ?thesis .
  next
    case False
    then show ?thesis
      by (subst find_close.simps, subst (2) find_close.simps) (auto simp: nth_append)
  qed
qed

lemma find_close_absent: "q \<notin> set xs \<Longrightarrow> find_close q xs i = Inl IndexError"
proof (induction q xs i rule: find_close.induct)
  case (1 q xs i)
  show ?case
  proof (cases "i < length xs")
    case True
    with "1.prems" have "xs ! i \<noteq> q" by (metis nth_mem)
    with True "1.IH" "1.prems" show ?thesis by (subst find_close.simps) simp
  next
    case False
    then show ?thesis by (subst find_close.simps) simp
  qed
qed

lemma find_close_first:
  assumes "q \<notin> set mid"
  shows "find_close q (mid @ q # rest) 0 = Inr (length mid)"
proof -
  have "find_close q (mid @ q # rest) i = Inr (length mid)" if "i \<le> length mid" for i
    using that
  proof (induction "length mid - i" arbitrary: i)
    case 0
    then have "i = length mid" by simp
    then show ?case by (subst find_close.simps) simp
  next
    case (Suc n)
    then have lt: "i < length mid" by simp
    with assms have "(mid @ q # rest) ! i \<noteq> q" by (metis nth_append nth_mem)
    moreover have "find_close q (mid @ q # rest) (i + 1) = Inr (length mid)"
      using Suc lt by simp
    ultimately show ?case using lt by (subst find_close.simps) simp
  qed
  then show ?thesis by simp
qed

lemma quote_loop_shift:
  "quote_loop q (xs @ ys) (length xs + i) nd = quote_loop q ys i nd"
proof (induction q ys i nd rule: quote_loop.induct)
  case (1 q ys i nd)
  show ?case
  proof (cases "i < length ys")
    case False
    then show ?thesis by (subst quote_loop.simps, subst (2) quote_loop.simps) simp
  next
    case lt: True
    show ?thesis
    proof (cases "ys ! i = q")
      case False
      with lt "1.IH"(2) show ?thesis
        by (subst quote_loop.simps, subst (2) quote_loop.simps) (simp add: nth_append)
    next
      case True
      have fc: "find_close q (xs @ ys) (length xs + i + 1) =
          (case find_close q ys (i + 1) of Inl e \<Rightarrow> Inl e | Inr j \<Rightarrow> Inr (length xs + j))"
        using find_close_shift [of q xs ys "i + 1"] by (simp add: add.assoc)
      show ?thesis
      proof (cases "find_close q ys (i + 1)")
        case (Inl e)
        with lt True fc show ?thesis
          by (subst quote_loop.simps, subst (2) quote_loop.simps) (simp add: nth_append)
      next
        case (Inr j)
        with lt True "1.IH"(1) have "quote_loop q (xs @ ys) (length xs + (j + 1)) (nd @ [ys ! i] @ [q]) = quote_loop q ys (j + 1) (nd @ [ys ! i] @ [q])"
          by simp
        with Inr lt True fc show ?thesis
          by (subst quote_loop.simps, subst (2) quote_loop.simps) (simp add: nth_append)
      qed
    qed
  qed
qed

lemma quote_loop_acc:
  "quote_loop q data i (a @ nd) =
     (case quote_loop q data i nd of Inl e \<Rightarrow> Inl e | Inr r \<Rightarrow> Inr (a @ r))"
proof (induction q data i nd rule: quote_loop.induct)
  case (1 q data i nd)
  note unf = quote_loop.simps [of q data i nd] quote_loop.simps [of q data i "a @ nd"]
  show ?case
  proof (cases "i < length data")
    case False
    then show ?thesis by (simp add: unf)
  next
    case lt: True
    show ?thesis
    proof (cases "data ! i = q")
      case False
      with lt "1.IH"(2) show ?thesis by (simp add: unf)
    next
      case True
      show ?thesis
      proof (cases "find_close q data (i + 1)")
        case (Inl e)
        with lt True show ?thesis by (simp add: unf)
      next
        case (Inr j)
        with lt True "1.IH"(1) show ?thesis by (simp add: unf)
      qed
    qed
  qed
qed


lemma quote_loop_Nil: "quote_loop q [] 0 nd = Inr nd"
  by (simp add: quote_loop.simps [of q "[]" 0 nd])

lemma quote_loop_other:
  assumes "c \<noteq> q"
  shows "quote_loop q (c # cs) 0 nd = quote_loop q cs 0 (nd @ [c])"
proof -
  have "quote_loop q (c # cs) 0 nd = quote_loop q ([c] @ cs) (length [c] + 0) (nd @ [c])"
    using assms by (simp add: quote_loop.simps [of q "c # cs" 0 nd])
  then show ?thesis by (simp only: quote_loop_shift)
qed

lemma quote_loop_region:
  assumes "q \<notin> set mid"
  shows "quote_loop q (q # mid @ q # rest) 0 nd = quote_loop q rest 0 (nd @ [q, q])"
proof -
  have "find_close q ([q] @ (mid @ q # rest)) (length [q] + 0) = Inr (length [q] + length mid)"
    by (simp only: find_close_shift find_close_first [OF assms]) simp
  then have fc: "find_close q (q # mid @ q # rest) (Suc 0) = Inr (Suc (length mid))"
    by simp
  have "quote_loop q (q # mid @ q # rest) 0 nd
      = quote_loop q (q # mid @ q # rest) (Suc (Suc (length mid))) (nd @ [q, q])"
    by (simp add: quote_loop.simps [of q "q # mid @ q # rest" 0 nd] fc)
  also have "\<dots> = quote_loop q ((q # mid @ [q]) @ rest) (length (q # mid @ [q]) + 0) (nd @ [q, q])"
    by simp
  also have "\<dots> = quote_loop q rest 0 (nd @ [q, q])"
    by (simp only: quote_loop_shift)
  finally show ?thesis .
qed

lemma quote_loop_open:
  assumes "q \<notin> set rest"
  shows "quote_loop q (q # rest) 0 nd = Inl IndexError"
proof -
  have "find_close q ([q] @ rest) (length [q] + 0) = Inl IndexError"
    by (simp only: find_close_shift find_close_absent [OF assms]) simp
  then have "find_close q (q # rest) (Suc 0) = Inl IndexError" by simp
  then show ?thesis by (simp add: quote_loop.simps [of q "q # rest" 0 nd])
qed

lemma quote_loop_balanced:
  "even (count_list pre q) \<Longrightarrow>
     \<exists>a. \<forall>xs nd. quote_loop q (pre @ xs) 0 nd = quote_loop q xs 0 (nd @ a)"
proof (induction "length pre" arbitrary: pre rule: less_induct)
  case less
  show ?case
  proof (cases pre)
    case Nil
    then have "\<forall>xs nd. quote_loop q (pre @ xs) 0 nd = quote_loop q xs 0 (nd @ [])" by simp
    then show ?thesis ..
  next
    case (Cons c cs)
    show ?thesis
    proof (cases "c = q")
      case False
      with Cons less.prems have "even (count_list cs q)" by simp
      with less.hyps [of cs] Cons obtain a where
        a: "\<And>xs nd. quote_loop q (cs @ xs) 0 nd = quote_loop q xs 0 (nd @ a)" by auto
      have "\<forall>xs nd. quote_loop q (pre @ xs) 0 nd = quote_loop q xs 0 (nd @ (c # a))"
        using False Cons by (simp add: quote_loop_other a)
      then show ?thesis ..
    next
      case True
      with Cons less.prems have odd: "odd (count_list cs q)" by simp
      then have "q \<in> set cs" by (metis count_list_0_iff even_zero)
      then obtain mid rest where cs: "cs = mid @ q # rest" and mid: "q \<notin> set mid"
        by (meson split_list_first)
      then have "count_list mid q = 0" by (simp add: count_list_0_iff)
      with odd cs have "even (count_list rest q)" by simp
      moreover have "length rest < length pre" using Cons cs by simp
      ultimately obtain a where
        a: "\<And>xs nd. quote_loop q (rest @ xs) 0 nd = quote_loop q xs 0 (nd @ a)"
        using less.hyps [of rest] by auto
      have "\<forall>xs nd. quote_loop q (pre @ xs) 0 nd = quote_loop q xs 0 (nd @ (q # q # a))"
        using True Cons cs by (simp add: quote_loop_region [OF mid] a)
      then show ?thesis ..
    qed
  qed
qed

lemma quote_loop_result:
  "quote_loop q data 0 nd = (case quote_loop q data 0 [] of Inl e \<Rightarrow> Inl e | Inr r \<Rightarrow> Inr (nd @ r))"
  using quote_loop_acc [of q data 0 nd "[]"] by simp


subsection \<open>Quoted regions\<close>

text \<open>
  C1 (as amended). When the pass stands outside any quoted region at an occurrence of
  the quote character \<open>q\<close> (an even number of quote characters precedes it) and the
  region is closed (the text continues \<open>mid\<close>, \<open>q\<close> with no \<open>q\<close> in \<open>mid\<close>), the pass
  writes the quote character twice for the whole region and drops \<open>mid\<close>: the output is
  the output for the text before, then \<open>q q\<close>, then the output for the text after.
  Nothing of the interior reaches the splitter, so the region is not split, and it is
  emptied.
\<close>

theorem quoted_region_emptied:
  assumes "even (count_list pre q)" and "q \<notin> set mid"
  shows "\<exists>a. quote_loop q pre 0 [] = Inr a \<and>
           quote_loop q (pre @ q # mid @ q # rest) 0 [] =
             (case quote_loop q rest 0 [] of Inl e \<Rightarrow> Inl e | Inr r \<Rightarrow> Inr (a @ q # q # r))"
proof -
  from quote_loop_balanced [OF assms(1)] obtain a where
    a: "\<And>xs nd. quote_loop q (pre @ xs) 0 nd = quote_loop q xs 0 (nd @ a)" by auto
  from a [of "[]" "[]"] have "quote_loop q pre 0 [] = Inr a"
    by (simp add: quote_loop_Nil)
  moreover have "quote_loop q (pre @ q # mid @ q # rest) 0 [] = quote_loop q rest 0 (a @ [q, q])"
    by (simp add: a quote_loop_region [OF assms(2)])
  ultimately show ?thesis
    using quote_loop_result [of q rest "a @ [q, q]"] by (auto split: sum.splits)
qed


theorem quoted_region_emptied_witness:
  \<open>even (count_list ''x '' (CHR 0x22)) \<and> CHR 0x22 \<notin> set ''a b(c'' \<and>
   quote_loop (CHR 0x22) ''x "a b(c" y'' 0 [] = Inr ''x "" y''\<close>
proof -
  have h1: "even (count_list ''x '' (CHR 0x22))" by simp
  have h2: "CHR 0x22 \<notin> set ''a b(c''" by simp
  have e1: "quote_loop (CHR 0x22) ''x '' 0 [] = Inr ''x ''" by code_simp
  have e2: "quote_loop (CHR 0x22) '' y'' 0 [] = Inr '' y''" by code_simp
  from quoted_region_emptied [OF h1 h2, of "'' y''"] e1 e2 h1 h2 show ?thesis by simp
qed

text \<open>
  The claim as the specification words it (the region is copied verbatim and appears as
  the atom \<open>"a b(c"\<close>) fails: the file \<open>"a b(c"\<close> lexes to the single atom \<open>""\<close>.
\<close>

theorem quoted_region_verbatim_counterexample:
  \<open>lexer ''"a b(c"'' = Inr [''""''] \<and> lexer ''"a b(c"'' \<noteq> Inr [''"a b(c"'']\<close>
  by code_simp

subsection \<open>Unterminated quotes\<close>

text \<open>
  C9. The text that reaches the quoted-region pass is \<open>prepare data\<close>, the active quote
  character is \<open>select_quote data\<close>. If an occurrence of the quote character opens a
  region (an even number of quote characters precedes it) and no quote character
  follows it, the pass raises IndexError: the lexer returns no tokens, and \<open>process\<close>
  raises with the globals untouched.
\<close>

theorem unterminated_quote_fails:
  assumes "prepare data = pre @ select_quote data # rest"
    and "even (count_list pre (select_quote data))"
    and "select_quote data \<notin> set rest"
  shows "lexer data = Inl IndexError \<and> process data g = (Some IndexError, g)"
proof -
  from quote_loop_balanced [OF assms(2)] obtain a where
    a: "\<And>xs nd. quote_loop (select_quote data) (pre @ xs) 0 nd
          = quote_loop (select_quote data) xs 0 (nd @ a)" by auto
  have "quote_loop (select_quote data) (prepare data) 0 [] = Inl IndexError"
    by (simp add: assms(1) a quote_loop_open [OF assms(3)])
  then show ?thesis by (simp add: lexer_def process_def)
qed


theorem unterminated_quote_fails_witness:
  \<open>lexer ''(pcb "abc)'' = Inl IndexError \<and>
   process ''(pcb "abc)'' init = (Some IndexError, init)\<close>
proof -
  have q: \<open>select_quote ''(pcb "abc)'' = CHR 0x22\<close> by code_simp
  have h1: \<open>prepare ''(pcb "abc)'' = ''(pcb '' @ select_quote ''(pcb "abc)'' # ''abc)''\<close>
    unfolding q by code_simp
  have h2: \<open>even (count_list ''(pcb '' (select_quote ''(pcb "abc)''))\<close>
    unfolding q by simp
  have h3: \<open>select_quote ''(pcb "abc)'' \<notin> set ''abc)''\<close>
    unfolding q by simp
  from unterminated_quote_fails [OF h1 h2 h3] show ?thesis .
qed

subsection \<open>Selection of the quote character\<close>

text \<open>
  C10. The three tests run in the order \<open>"\<close>, \<open>'\<close>, \<open>$\<close> and a later one overrides an
  earlier one: a file containing \<open>(string_quote $)\<close> has the active quote \<open>$\<close> whatever
  other markers it holds, and a file containing \<open>(string_quote ')\<close> without
  \<open>(string_quote $)\<close> has the active quote \<open>'\<close>.
\<close>

theorem select_quote_precedence:
  "(contains data ''(string_quote $)'' \<longrightarrow> select_quote data = CHR ''$'') \<and>
   (contains data (''(string_quote '' @ [CHR 0x27] @ '')'') \<and>
      \<not> contains data ''(string_quote $)'' \<longrightarrow> select_quote data = CHR 0x27)"
  by (simp add: select_quote_def)

theorem select_quote_precedence_witness:
  \<open>select_quote (''(string_quote $)(string_quote ") (string_quote '' @ [CHR 0x27] @ '')'') = CHR ''$'' \<and>
   select_quote (''(string_quote ")(pcb (string_quote '' @ [CHR 0x27] @ ''))'') = CHR 0x27\<close>
proof -
  let ?d1 = \<open>''(string_quote $)(string_quote ") (string_quote '' @ [CHR 0x27] @ '')''\<close>
  let ?d2 = \<open>''(string_quote ")(pcb (string_quote '' @ [CHR 0x27] @ ''))''\<close>
  have h1: "contains ?d1 ''(string_quote $)''" by code_simp
  have h2: "contains ?d2 (''(string_quote '' @ [CHR 0x27] @ '')'')" by code_simp
  have h3: "\<not> contains ?d2 ''(string_quote $)''" by code_simp
  from select_quote_precedence [of ?d1] select_quote_precedence [of ?d2] h1 h2 h3
  show ?thesis by blast
qed

subsection \<open>Escaped quotes\<close>

text \<open>
  C4. The escape removal of line 132 is \<open>data.replace(r'\"', '')\<close> whatever quote
  character was selected, under the comment "get rid of any escaped quotes". In a file
  that selects \<open>$\<close>, the sequence backslash-dollar stays in the text; its \<open>$\<close> then
  opens a quoted region that nothing closes, and the file fails with IndexError. Had
  the sequence been removed, the text would be \<open>(pcb ab)\<close> and the file would count
  \<open>pcb\<close> once.
\<close>

theorem escaped_dollar_kept:
  "select_quote (''(string_quote $)(pcb a'' @ [CHR 0x5C] @ ''$b)'') = CHR ''$'' \<and>
   prepare (''(string_quote $)(pcb a'' @ [CHR 0x5C] @ ''$b)'') = ''(pcb a'' @ [CHR 0x5C] @ ''$b)'' \<and>
   process (''(string_quote $)(pcb a'' @ [CHR 0x5C] @ ''$b)'') init = (Some IndexError, init) \<and>
   process ''(string_quote $)(pcb ab)'' init = (None, \<lparr>path = [], counts = [(''pcb'', 1)]\<rparr>)"
proof -
  have "lexer (''(string_quote $)(pcb a'' @ [CHR 0x5C] @ ''$b)'') = Inl IndexError"
    by code_simp
  moreover have "lexer ''(string_quote $)(pcb ab)'' = Inr [''('', ''pcb'', ''ab'', '')'']"
    by code_simp
  moreover have "\<not> valid_keyword ''ab''"
    by (simp add: valid_keyword_def keyword_table_def)
  moreover have "select_quote (''(string_quote $)(pcb a'' @ [CHR 0x5C] @ ''$b)'') = CHR ''$''"
    by code_simp
  moreover have "prepare (''(string_quote $)(pcb a'' @ [CHR 0x5C] @ ''$b)'') = ''(pcb a'' @ [CHR 0x5C] @ ''$b)''"
    by code_simp
  ultimately show ?thesis
    by (simp add: walk_eval)
qed

subsection \<open>A complete run on one file\<close>

lemma top_is_keyword: "valid_keyword ''top''"
  by (simp add: valid_keyword_def keyword_table_def)

lemma foo_not_keyword: "\<not> valid_keyword ''foo''"
  by (simp add: valid_keyword_def keyword_table_def)

lemma lexer_scenario1:
  "lexer ''(pcb (structure (layer top)))'' =
     Inr [''('', ''pcb'', ''('', ''structure'', ''('', ''layer'', ''top'', '')'', '')'', '')'']"
  by code_simp

text \<open>
  C6. Processing \<open>(pcb (structure (layer top)))\<close> from the empty accumulator returns
  normally with an empty path and exactly the four entries \<open>pcb\<close>, \<open>pcb.structure\<close>,
  \<open>pcb.structure.layer\<close> and \<open>pcb.structure.layer.top\<close>, each with count 1; the four
  names are in the keyword table.
\<close>

theorem process_pcb_structure_layer_top:
  "process ''(pcb (structure (layer top)))'' init =
     (None, \<lparr>path = [], counts = [(''pcb'', 1), (''pcb.structure'', 1),
        (''pcb.structure.layer'', 1), (''pcb.structure.layer.top'', 1)]\<rparr>) \<and>
   valid_keyword ''pcb'' \<and> valid_keyword ''structure'' \<and>
   valid_keyword ''layer'' \<and> valid_keyword ''top''"
proof -
  have "valid_keyword ''pcb'' \<and> valid_keyword ''structure'' \<and> valid_keyword ''layer''"
    by (simp add: valid_keyword_def keyword_table_def)
  then show ?thesis
    by (simp add: walk_eval lexer_scenario1 top_is_keyword)
qed

subsection \<open>Atoms outside the keyword table\<close>

text \<open>
  C7 (as amended). When the token the loop reads as \<open>t\<close> is an atom (neither
  parenthesis) outside the keyword table and the path is not empty, that round of the
  loop only advances \<open>idx\<close>: the path and the accumulator are unchanged, and the walk
  continues from the next token with the same globals.
\<close>

theorem unrecognized_atom_ignored:
  assumes "idx < length tokens"
    and "tokens ! idx \<noteq> ''(''" and "tokens ! idx \<noteq> '')''"
    and "\<not> valid_keyword (tokens ! idx)"
    and "path g \<noteq> []"
  shows "walk_step tokens idx g = Inr (idx + 1, g) \<and>
         walk tokens idx g = walk tokens (idx + 1) g"
proof -
  from assms have step: "walk_step tokens idx g = Inr (idx + 1, g)"
    by (simp add: walk_step_def next_token_def)
  with assms(1) show ?thesis
    by (simp add: walk.simps [of tokens idx g])
qed

theorem unrecognized_atom_ignored_witness:
  "walk_step [''('', ''pcb'', ''foo'', '')''] 2 \<lparr>path = [''pcb''], counts = [(''pcb'', 1)]\<rparr>
     = Inr (3, \<lparr>path = [''pcb''], counts = [(''pcb'', 1)]\<rparr>)"
  using unrecognized_atom_ignored [of 2 "[''('', ''pcb'', ''foo'', '')'']"
      "\<lparr>path = [''pcb''], counts = [(''pcb'', 1)]\<rparr>"] foo_not_keyword
  by simp

lemma lexer_pcb_foo:
  "lexer ''(pcb (foo))'' = Inr [''('', ''pcb'', ''('', ''foo'', '')'', '')'']"
  by code_simp

text \<open>
  The claim as the specification words it covers every atom met while the path is not
  empty. The atom that follows an open parenthesis is read as \<open>nt\<close>, and it is pushed
  and counted without a look at the keyword table: in \<open>(pcb (foo))\<close> the atom \<open>foo\<close> is
  met with the path \<open>pcb\<close>, becomes a path segment and creates the entry \<open>pcb.foo\<close>.
\<close>

theorem unrecognized_group_name_counterexample:
  "\<not> valid_keyword ''foo'' \<and>
   lexer ''(pcb (foo))'' = Inr [''('', ''pcb'', ''('', ''foo'', '')'', '')''] \<and>
   walk_step [''('', ''pcb'', ''('', ''foo'', '')'', '')''] 2
       \<lparr>path = [''pcb''], counts = [(''pcb'', 1)]\<rparr>
     = Inr (4, \<lparr>path = [''pcb'', ''foo''], counts = [(''pcb'', 1), (''pcb.foo'', 1)]\<rparr>) \<and>
   process ''(pcb (foo))'' init =
     (None, \<lparr>path = [], counts = [(''pcb'', 1), (''pcb.foo'', 1)]\<rparr>)"
  by (simp add: walk_eval lexer_pcb_foo foo_not_keyword)

subsection \<open>Open parentheses without a name\<close>

lemma lexer_empty_pairs:
  "lexer ''(pcb ()())'' = Inr [''('', ''pcb'', ''('', '')'', ''('', '')'', '')'']"
  by code_simp

text \<open>
  C8 (as amended). When the token the loop reads as \<open>t\<close> is an open parenthesis and the
  next token is a close parenthesis or there is no next token, the walk raises at once
  (AssertionError on \<open>)\<close>, IndexError at the end of the tokens) and leaves the globals
  as they were at that round. In particular \<open>(pcb ()())\<close> fails on its first empty
  pair, after \<open>pcb\<close> has been counted.
\<close>

theorem open_paren_needs_name:
  "(\<forall>tokens idx g. idx < length tokens \<and> tokens ! idx = ''('' \<and>
        (idx + 1 < length tokens \<longrightarrow> tokens ! (idx + 1) = '')'') \<longrightarrow>
      walk tokens idx g =
        (Some (if idx + 1 < length tokens then AssertionError else IndexError), g)) \<and>
   process ''(pcb ()())'' init =
     (Some AssertionError, \<lparr>path = [''pcb''], counts = [(''pcb'', 1)]\<rparr>)"
proof (intro conjI allI impI)
  fix tokens idx g
  assume "idx < length tokens \<and> tokens ! idx = ''('' \<and>
        (idx + 1 < length tokens \<longrightarrow> tokens ! (idx + 1) = '')'')"
  then show "walk tokens idx g =
        (Some (if idx + 1 < length tokens then AssertionError else IndexError), g)"
    by (simp add: walk.simps [of tokens idx g] walk_step_def next_token_def)
next
  show "process ''(pcb ()())'' init =
     (Some AssertionError, \<lparr>path = [''pcb''], counts = [(''pcb'', 1)]\<rparr>)"
    by (simp add: walk_eval lexer_empty_pairs)
qed

theorem open_paren_needs_name_witness:
  "walk [''('', ''pcb'', ''('', '')'', ''('', '')'', '')''] 2
      \<lparr>path = [''pcb''], counts = [(''pcb'', 1)]\<rparr>
     = (Some AssertionError, \<lparr>path = [''pcb''], counts = [(''pcb'', 1)]\<rparr>) \<and>
   walk [''(''] 0 init = (Some IndexError, init)"
  using open_paren_needs_name by simp

lemma lexer_nested_open:
  "lexer ''(()'' = Inr [''('', ''('', '')'']"
  by code_simp

text \<open>
  The claim as the specification words it covers every open parenthesis of the token
  stream. An open parenthesis that follows another one is read as \<open>nt\<close>, that is as a
  group name; the close parenthesis after it then pops it. The file \<open>(()\<close> has an open
  parenthesis immediately followed by a close parenthesis and is processed without
  any exception.
\<close>

theorem open_paren_as_name_counterexample:
  "lexer ''(()'' = Inr [''('', ''('', '')''] \<and>
   process ''(()'' init = (None, \<lparr>path = [], counts = [(''('', 1)]\<rparr>)"
  by (simp add: walk_eval lexer_nested_open)

subsection \<open>What a failed file leaves behind\<close>

lemma count_of_setdefault: "count_of (setdefault k 0 cs) k' = count_of cs k'"
proof (cases "k \<in> fst ` set cs")
  case True
  then show ?thesis by (simp add: setdefault_def)
next
  case False
  then have "map_of cs k = None" by (simp add: map_of_eq_None_iff)
  with False show ?thesis
    by (cases "map_of cs k'") (auto simp: setdefault_def count_of_def map_add_def)
qed

lemma map_of_increment:
  "map_of (increment k cs) k' =
     (case map_of cs k' of None \<Rightarrow> None | Some v \<Rightarrow> Some (if k' = k then v + 1 else v))"
  by (induction cs) (auto simp: increment_def)

lemma count_of_increment: "count_of cs k' \<le> count_of (increment k cs) k'"
  by (simp add: count_of_def map_of_increment split: option.splits)

lemma count_of_add_path: "count_of (counts g) k \<le> count_of (counts (add_path g)) k"
proof -
  have "count_of (counts g) k = count_of (setdefault (join ''.'' (path g)) 0 (counts g)) k"
    by (simp add: count_of_setdefault)
  also have "\<dots> \<le> count_of (counts (add_path g)) k"
    by (simp add: add_path_def Let_def count_of_increment)
  finally show ?thesis .
qed

lemma counts_append: "counts (append t g) = counts g"
  by (simp add: append_def)

lemma count_of_record: "count_of (counts g) k \<le> count_of (counts (add_path (append t g))) k"
  using count_of_add_path [of "append t g" k] by (simp add: counts_append)

lemma walk_step_counts:
  assumes "walk_step tokens idx g = Inr (idx', g') \<or> walk_step tokens idx g = Inl (e, g')"
  shows "count_of (counts g) k \<le> count_of (counts g') k"
proof (cases "next_token tokens idx")
  case (Inl x)
  with assms show ?thesis by (simp add: walk_step_def)
next
  case (Inr p)
  obtain t i where p: "p = (t, i)" by (cases p)
  show ?thesis
  proof (cases "t = ''(''")
    case True
    with assms Inr p show ?thesis
      by (auto simp: walk_step_def count_of_record split: sum.splits if_splits)
  next
    case nopen: False
    show ?thesis
    proof (cases "t = '')''")
      case True
      with assms Inr p nopen show ?thesis
        by (auto simp: walk_step_def pop_def split: if_splits)
    next
      case False
      with assms Inr p nopen show ?thesis
        by (auto simp: walk_step_def pop_def count_of_record split: if_splits)
    qed
  qed
qed



lemma walk_counts: "count_of (counts g) k \<le> count_of (counts (snd (walk tokens idx g))) k"
proof (induction tokens idx g rule: walk.induct)
  case (1 tokens idx g)
  note unf = walk.simps [of tokens idx g]
  show ?case
  proof (cases "idx < length tokens")
    case False
    then have "walk tokens idx g = (None, g)" by (subst unf) simp
    then show ?thesis by simp
  next
    case True
    show ?thesis
    proof (cases "walk_step tokens idx g")
      case (Inl a)
      obtain e g' where a: "a = (e, g')" by (cases a)
      have "walk tokens idx g = (Some e, g')"
        by (subst unf) (simp add: True Inl a)
      moreover have "count_of (counts g) k \<le> count_of (counts g') k"
        by (rule walk_step_counts [of tokens idx g idx g' e]) (simp add: Inl a)
      ultimately show ?thesis by simp
    next
      case (Inr b)
      obtain idx' g' where b: "b = (idx', g')" by (cases b)
      have "walk tokens idx g = walk tokens idx' g'"
        by (subst unf) (simp add: True Inr b)
      moreover have "count_of (counts g') k \<le> count_of (counts (snd (walk tokens idx' g'))) k"
        by (rule "1.IH" [OF True Inr]) (simp add: b)
      moreover have "count_of (counts g) k \<le> count_of (counts g') k"
        by (rule walk_step_counts [of tokens idx g idx' g' IndexError]) (simp add: Inr b)
      ultimately show ?thesis by simp
    qed
  qed
qed

lemma process_counts: "count_of (counts g) k \<le> count_of (counts (snd (process data g))) k"
proof (cases "lexer data")
  case (Inl e)
  then show ?thesis by (simp add: process_def)
next
  case (Inr tokens)
  obtain r g' where w: "walk tokens 0 g = (r, g')" by (cases "walk tokens 0 g")
  with walk_counts [of g k tokens 0] have "count_of (counts g) k \<le> count_of (counts g') k" by simp
  with Inr w show ?thesis by (cases r) (simp_all add: process_def)
qed

lemma lexer_unterminated: \<open>lexer ''(pcb "abc)'' = Inl IndexError\<close>
  by code_simp

lemma walk_reaches_walk:
  "walk_reaches tokens idx0 g0 idx g \<Longrightarrow> walk tokens idx0 g0 = walk tokens idx g"
proof (induction rule: walk_reaches.induct)
  case (start tokens idx0 g0)
  show ?case by simp
next
  case (round tokens idx0 g0 idx g idx' g')
  have "walk tokens idx g = walk tokens idx' g'"
    by (subst walk.simps) (simp add: round.hyps)
  with round.IH show ?case by simp
qed

lemma process_globals:
  "lexer data = Inr tokens \<Longrightarrow> snd (process data g) = snd (walk tokens 0 g)"
proof -
  assume lx: "lexer data = Inr tokens"
  obtain r g' where w: "walk tokens 0 g = (r, g')" by (cases "walk tokens 0 g")
  with lx show ?thesis by (cases r) (simp_all add: process_def)
qed

lemma walk_reaches_first_round:
  "walk_reaches [''('', ''pcb'', ''('', '')'', ''('', '')'', '')''] 0 init
     2 \<lparr>path = [''pcb''], counts = [(''pcb'', 1)]\<rparr>"
proof -
  let ?tokens = "[''('', ''pcb'', ''('', '')'', ''('', '')'', '')'']"
  have st: "walk_step ?tokens 0 init = Inr (2, \<lparr>path = [''pcb''], counts = [(''pcb'', 1)]\<rparr>)"
    by (simp add: walk_step_def next_token_def append_def add_path_def setdefault_def
        increment_def init_def Let_def)
  show ?thesis
    by (rule walk_reaches.round [OF walk_reaches.start _ st]) simp
qed

text \<open>
  C2 (as amended). When reading the file fails or the lexer raises, \<open>process\<close> has not
  touched the globals: the accumulator after the file is the accumulator before it.
  When the walker raises, nothing is rolled back: the globals after the file are the
  globals the walk left when it stopped, and whatever count stood in the accumulator
  at the head of any round the loop reached is still there, or larger, after the file.
  In every case each count after the file is at least what it was before.
\<close>

theorem failed_file_counts:
  "((content = None \<or> (\<exists>data e. content = Some data \<and> lexer data = Inl e)) \<longrightarrow>
      fst (process_file content g) \<noteq> None \<and> snd (process_file content g) = g) \<and>
   (\<forall>data tokens. content = Some data \<and> lexer data = Inr tokens \<longrightarrow>
      snd (process_file content g) = snd (walk tokens 0 g) \<and>
      (\<forall>idx g1 k. walk_reaches tokens 0 g idx g1 \<longrightarrow>
         count_of (counts g1) k \<le> count_of (counts (snd (process_file content g))) k)) \<and>
   (\<forall>k. count_of (counts g) k \<le> count_of (counts (snd (process_file content g))) k)"
proof (intro conjI impI allI)
  assume "content = None \<or> (\<exists>data e. content = Some data \<and> lexer data = Inl e)"
  then show "fst (process_file content g) \<noteq> None" and "snd (process_file content g) = g"
    by (auto simp: process_file_def process_def)
next
  fix data tokens
  assume "content = Some data \<and> lexer data = Inr tokens"
  then show "snd (process_file content g) = snd (walk tokens 0 g)"
    by (simp add: process_file_def process_globals)
next
  fix data tokens idx g1 k
  assume c: "content = Some data \<and> lexer data = Inr tokens"
    and r: "walk_reaches tokens 0 g idx g1"
  from c have "snd (process_file content g) = snd (walk tokens 0 g)"
    by (simp add: process_file_def process_globals)
  also from r have "walk tokens 0 g = walk tokens idx g1"
    by (rule walk_reaches_walk)
  finally show "count_of (counts g1) k \<le> count_of (counts (snd (process_file content g))) k"
    by (simp add: walk_counts)
next
  fix k
  show "count_of (counts g) k \<le> count_of (counts (snd (process_file content g))) k"
    by (cases content) (simp_all add: process_file_def process_counts)
qed

theorem failed_file_counts_witness:
  \<open>snd (process_file (Some ''(pcb "abc)'') init) = init \<and>
   snd (process_file None init) = init \<and>
   fst (process_file (Some ''(pcb ()())'') init) = Some AssertionError \<and>
   1 \<le> count_of (counts (snd (process_file (Some ''(pcb ()())'') init))) ''pcb''\<close>
proof -
  have "count_of (counts \<lparr>path = [''pcb''], counts = [(''pcb'', 1)]\<rparr>) ''pcb'' = 1"
    by (simp add: count_of_def)
  moreover have "fst (process_file (Some ''(pcb ()())'') init) = Some AssertionError"
    by (simp add: walk_eval lexer_empty_pairs)
  ultimately show ?thesis
    using failed_file_counts [of \<open>Some ''(pcb "abc)''\<close> init]
      failed_file_counts [of None init]
      failed_file_counts [of "Some ''(pcb ()())''" init]
      lexer_unterminated lexer_empty_pairs walk_reaches_first_round
    by (metis option.discI)
qed

text \<open>
  The claim as the specification words it fails for a walker failure: \<open>(pcb ()())\<close>
  raises on its first empty pair and the entry \<open>pcb\<close> it recorded before remains.
\<close>

theorem partial_counts_kept_counterexample:
  "process_file (Some ''(pcb ()())'') init =
     (Some AssertionError, \<lparr>path = [''pcb''], counts = [(''pcb'', 1)]\<rparr>) \<and>
   counts (snd (process_file (Some ''(pcb ()())'') init)) \<noteq> counts init"
  by (simp add: walk_eval lexer_empty_pairs)

subsection \<open>The path across files\<close>

lemma lexer_open_pcb: "lexer ''(pcb'' = Inr [''('', ''pcb'']"
  by code_simp

lemma lexer_pcb: "lexer ''(pcb)'' = Inr [''('', ''pcb'', '')'']"
  by code_simp

text \<open>
  C5. The list \<open>path\<close> is created once, at module level, and nothing empties it when
  \<open>process\<close> raises, although \<open>process\<close> ends with \<open>assert len(path) == 0\<close>. The file
  \<open>(pcb\<close> fails that assertion and leaves \<open>pcb\<close> on the path. The next file, \<open>(pcb)\<close>,
  is well formed and succeeds on its own, but in this run it starts with the path
  \<open>pcb\<close>, records \<open>pcb.pcb\<close>, and fails the final assertion in its turn.
\<close>

theorem stale_path_after_failure:
  "process ''(pcb)'' init = (None, \<lparr>path = [], counts = [(''pcb'', 1)]\<rparr>) \<and>
   process ''(pcb'' init = (Some AssertionError, \<lparr>path = [''pcb''], counts = [(''pcb'', 1)]\<rparr>) \<and>
   process ''(pcb)'' \<lparr>path = [''pcb''], counts = [(''pcb'', 1)]\<rparr> =
     (Some AssertionError, \<lparr>path = [''pcb''], counts = [(''pcb'', 1), (''pcb.pcb'', 1)]\<rparr>) \<and>
   main_loop [(''a'', Some ''(pcb''), (''b'', Some ''(pcb)'')] ([], init) =
     ([''Failed to process a'', ''Failed to process b''],
      \<lparr>path = [''pcb''], counts = [(''pcb'', 1), (''pcb.pcb'', 1)]\<rparr>)"
  by (simp add: walk_eval lexer_open_pcb lexer_pcb)

subsection \<open>The report\<close>

text \<open>
  C3 (as amended). The report has one line per entry of the accumulator, of the form
  \<open>path: count\<close>, and the lines are in ascending order of the path string first and of
  the count second (the order on pairs is the lexicographic one, the order on strings
  the lexicographic one over character codes).
\<close>

theorem print_counts_sorted_by_path:
  "\<exists>vals. mset vals = mset (counts g) \<and> sorted vals \<and>
      print_counts g = map (\<lambda>(k, v). k @ '': '' @ str_int v) vals"
proof -
  let ?swap = "\<lambda>x :: int \<times> string. (snd x, fst x)"
  let ?vals = "map ?swap (print_vals (counts g))"
  have "mset ?vals = image_mset ?swap (image_mset (\<lambda>(k, v). (v, k)) (mset (counts g)))"
    by (simp add: print_vals_def)
  also have "\<dots> = mset (counts g)"
    by (simp add: image_mset.compositionality comp_def case_prod_unfold)
  finally have "mset ?vals = mset (counts g)" .
  moreover have "sorted ?vals"
    unfolding print_vals_def by (rule sorted_sort_key)
  moreover have "print_counts g = map (\<lambda>(k, v). k @ '': '' @ str_int v) ?vals"
    by (simp add: print_counts_def print_line_def case_prod_unfold)
  ultimately show ?thesis by blast
qed

lemma lexer_three_groups:
  "lexer ''(a)(a)(b)'' = Inr [''('', ''a'', '')'', ''('', ''a'', '')'', ''('', ''b'', '')'']"
  by code_simp

text \<open>
  The claim as the specification words it (count first, path second) fails: after the
  file \<open>(a)(a)(b)\<close> the report is \<open>a: 2\<close> then \<open>b: 1\<close>.
\<close>

theorem sorted_by_count_counterexample:
  "main [(''f'', Some ''(a)(a)(b)'')] = [''a: 2'', ''b: 1''] \<and>
   map fst (print_vals [(''a'', 2), (''b'', 1)]) = [2, 1]"
proof -
  have "main_loop [(''f'', Some ''(a)(a)(b)'')] ([], init) =
      ([], \<lparr>path = [], counts = [(''a'', 2), (''b'', 1)]\<rparr>)"
    by (simp add: walk_eval lexer_three_groups)
  moreover have "print_vals [(''a'', 2), (''b'', 1)] = [(2, ''a''), (1, ''b'')]"
    by (simp add: print_vals_def)
  moreover have "str_int 2 = ''2''" and "str_int 1 = ''1''"
    by code_simp+
  ultimately show ?thesis
    by (simp add: main_def print_counts_def print_line_def)
qed

end
